theory Spec2Isabelle
  imports Main
begin

section \<open>The SNLI corpus reader\<close>

text \<open>
  Python strings are modelled as \<^typ>\<open>string\<close>; a character stands for a code point
  below 256.  The text handed to the reader is the text of the file as Python's
  text-mode \<^verbatim>\<open>open(file_name, 'r')\<close> delivers it.
\<close>

datatype error = IndexError | KeyError | OSError

definition TAB :: char where
  "TAB = CHR 0x09"

definition NL :: char where
  "NL = CHR 0x0A"

text \<open>
  The whitespace test shared by the regular expression class \<^verbatim>\<open>\s\<close> and by
  \<^verbatim>\<open>str.strip()\<close>: the code points 9 to 13, 28 to 32, 133 and 160.
\<close>

definition isspace :: "char \<Rightarrow> bool" where
  "isspace c = (c \<in> set [CHR 0x09, CHR 0x0A, CHR 0x0B, CHR 0x0C, CHR 0x0D,
                          CHR 0x1C, CHR 0x1D, CHR 0x1E, CHR 0x1F, CHR 0x20,
                          CHR 0x85, CHR 0xA0])"

text \<open>\<^verbatim>\<open>f.readlines()\<close>: the text cut after every newline, the newline kept.\<close>

fun readlines :: "string \<Rightarrow> string list" where
  "readlines [] = []"
| "readlines (c # cs) =
     (if c = NL then [c] # readlines cs
      else (case readlines cs of [] \<Rightarrow> [[c]] | l # ls \<Rightarrow> (c # l) # ls))"

text \<open>\<^verbatim>\<open>row.split(sep)\<close> for a one-character separator: always at least one field.\<close>

fun str_split :: "char \<Rightarrow> string \<Rightarrow> string list" where
  "str_split sep [] = [[]]"
| "str_split sep (c # cs) =
     (if c = sep then [] # str_split sep cs
      else (case str_split sep cs of [] \<Rightarrow> [[c]] | f # fs \<Rightarrow> (c # f) # fs))"

text \<open>\<^verbatim>\<open>re.sub('\\(', '', s)\<close> and \<^verbatim>\<open>re.sub('\\)', '', s)\<close>: every occurrence of
  the character is deleted.\<close>

definition re_sub_delete :: "char \<Rightarrow> string \<Rightarrow> string" where
  "re_sub_delete c s = filter (\<lambda>x. x \<noteq> c) s"

text \<open>\<^verbatim>\<open>re.sub('\\s{2,}', ' ', s)\<close>: scanning from the left, every maximal run of two
  or more whitespace characters is replaced by one blank.\<close>

function re_sub_spaces :: "string \<Rightarrow> string" where
  "re_sub_spaces [] = []"
| "re_sub_spaces [c] = [c]"
| "re_sub_spaces (c # d # cs) =
     (if isspace c \<and> isspace d then CHR '' '' # re_sub_spaces (dropWhile isspace cs)
      else c # re_sub_spaces (d # cs))"
  by pat_completeness auto
termination
  by (relation "measure length") (auto simp: le_imp_less_Suc length_dropWhile_le less_Suc_eq_le le_SucI)

text \<open>\<^verbatim>\<open>s.strip()\<close>: leading and trailing whitespace removed.\<close>

definition strip :: "string \<Rightarrow> string" where
  "strip s = rev (dropWhile isspace (rev (dropWhile isspace s)))"

definition extract_text :: "string \<Rightarrow> string" where
  "extract_text s =
     (let s1 = re_sub_delete (CHR ''('') s;
          s2 = re_sub_delete (CHR '')'') s1;
          s3 = re_sub_spaces s2
      in strip s3)"

text \<open>Indexing a sequence with a Python integer: a negative index counts from the end,
  an index out of range raises \<^verbatim>\<open>IndexError\<close>.\<close>

definition getitem :: "'a list \<Rightarrow> int \<Rightarrow> error + 'a" where
  "getitem xs i =
     (if 0 \<le> i \<and> i < int (length xs) then Inr (xs ! nat i)
      else if i < 0 \<and> - int (length xs) \<le> i then Inr (xs ! nat (int (length xs) + i))
      else Inl IndexError)"

definition label_set :: "string \<rightharpoonup> int" where
  "label_set = [''entailment'' \<mapsto> 0, ''contradiction'' \<mapsto> 1, ''neutral'' \<mapsto> 2]"

text \<open>\<^verbatim>\<open>os.path.join(data_dir, name)\<close> on a POSIX system.\<close>

definition path_join :: "string \<Rightarrow> string \<Rightarrow> string" where
  "path_join a b =
     (if b \<noteq> [] \<and> hd b = CHR ''/'' then b
      else if a = [] \<or> last a = CHR ''/'' then a @ b
      else a @ ''/'' @ b)"

definition file_name :: "string \<Rightarrow> bool \<Rightarrow> string" where
  "file_name data_dir is_train =
     path_join data_dir (if is_train then ''snli_1.0_train.txt'' else ''snli_1.0_test.txt'')"

text \<open>\<^verbatim>\<open>rows = [row.split('\t') for row in f.readlines()[1:]]\<close>\<close>

definition rows_of :: "string \<Rightarrow> string list list" where
  "rows_of txt = map (str_split TAB) (drop 1 (readlines txt))"

text \<open>The list comprehension \<^verbatim>\<open>[e(row) for row in rows if row[0] in label_set]\<close>:
  rows are visited in order, and the first exception raised by the filter or by the
  element expression ends the comprehension.\<close>

fun comprehension :: "(string list \<Rightarrow> error + 'a) \<Rightarrow> string list list \<Rightarrow> error + 'a list" where
  "comprehension e [] = Inr []"
| "comprehension e (row # rows) =
     (case getitem row 0 of
        Inl err \<Rightarrow> Inl err
      | Inr l \<Rightarrow>
          if label_set l \<noteq> None then
            (case e row of
               Inl err \<Rightarrow> Inl err
             | Inr v \<Rightarrow>
                 (case comprehension e rows of
                    Inl err \<Rightarrow> Inl err
                  | Inr vs \<Rightarrow> Inr (v # vs)))
          else comprehension e rows)"

text \<open>The element expressions \<^verbatim>\<open>extract_text(row[1])\<close>, \<^verbatim>\<open>extract_text(row[2])\<close>
  and \<^verbatim>\<open>label_set[row[0]]\<close>.\<close>

definition premise_of :: "string list \<Rightarrow> error + string" where
  "premise_of row = (case getitem row 1 of Inl err \<Rightarrow> Inl err | Inr s \<Rightarrow> Inr (extract_text s))"

definition hypothesis_of :: "string list \<Rightarrow> error + string" where
  "hypothesis_of row = (case getitem row 2 of Inl err \<Rightarrow> Inl err | Inr s \<Rightarrow> Inr (extract_text s))"

definition label_of :: "string list \<Rightarrow> error + int" where
  "label_of row =
     (case getitem row 0 of
        Inl err \<Rightarrow> Inl err
      | Inr l \<Rightarrow> (case label_set l of None \<Rightarrow> Inl KeyError | Some n \<Rightarrow> Inr n))"

text \<open>The file system is a map from path names to the text of the file; a path it does
  not hold makes \<^verbatim>\<open>open\<close> raise \<^verbatim>\<open>OSError\<close>.\<close>

definition read_snli ::
  "(string \<rightharpoonup> string) \<Rightarrow> string \<Rightarrow> bool \<Rightarrow> error + (string list \<times> string list \<times> int list)" where
  "read_snli fs data_dir is_train =
     (case fs (file_name data_dir is_train) of
        None \<Rightarrow> Inl OSError
      | Some txt \<Rightarrow>
          (let rows = rows_of txt in
           case comprehension premise_of rows of
             Inl err \<Rightarrow> Inl err
           | Inr premises \<Rightarrow>
               (case comprehension hypothesis_of rows of
                  Inl err \<Rightarrow> Inl err
                | Inr hypotheses \<Rightarrow>
                    (case comprehension label_of rows of
                       Inl err \<Rightarrow> Inl err
                     | Inr labels \<Rightarrow> Inr (premises, hypotheses, labels)))))"

section \<open>Vocabulary, padding and the dataset class\<close>

type_synonym token = string

record vocabulary =
  token_to_idx :: "token \<rightharpoonup> nat"
  unk :: nat

text \<open>
  Modelled from the spec: the class \<^verbatim>\<open>d2l.Vocab\<close> is not among the source files.  The
  spec describes a vocabulary as a mapping from token to integer id with a frequency
  cutoff and reserved tokens, in which a token outside the vocabulary is mapped to a
  designated unknown-token id.  Here the unknown id is 0, the reserved tokens take the
  ids from 1 on, and the tokens occurring at least \<open>min_freq\<close> times follow.
\<close>

definition Vocab :: "token list list \<Rightarrow> nat \<Rightarrow> token list \<Rightarrow> vocabulary" where
  "Vocab tokens min_freq reserved_tokens =
     (let corpus = concat tokens;
          frequent = filter (\<lambda>t. min_freq \<le> count_list corpus t \<and> t \<notin> set reserved_tokens)
                       (remdups corpus);
          kept = reserved_tokens @ frequent
      in \<lparr>token_to_idx = map_of (zip kept [1 ..< Suc (length kept)]), unk = 0\<rparr>)"

text \<open>Modelled from the spec: \<^verbatim>\<open>vocab[token]\<close> and \<^verbatim>\<open>vocab[line]\<close> of the absent class
  \<^verbatim>\<open>d2l.Vocab\<close>; a token outside the vocabulary gets the unknown id, no error.\<close>

definition Vocab_getitem :: "vocabulary \<Rightarrow> token \<Rightarrow> nat" where
  "Vocab_getitem v t = (case token_to_idx v t of None \<Rightarrow> unk v | Some i \<Rightarrow> i)"

definition Vocab_getitems :: "vocabulary \<Rightarrow> token list \<Rightarrow> nat list" where
  "Vocab_getitems v line = map (Vocab_getitem v) line"

text \<open>Modelled from the spec: \<^verbatim>\<open>d2l.truncate_pad\<close> is not among the source files.  The
  spec: a sequence longer than \<open>num_steps\<close> is truncated from the tail end, a shorter
  one is right-padded with the padding id, to exactly \<open>num_steps\<close> ids.\<close>

definition truncate_pad :: "'a list \<Rightarrow> nat \<Rightarrow> 'a \<Rightarrow> 'a list" where
  "truncate_pad line num_steps padding_token =
     (if num_steps < length line then take num_steps line
      else line @ replicate (num_steps - length line) padding_token)"

text \<open>Modelled from the spec: \<^verbatim>\<open>d2l.tokenize\<close> is not among the source files.  The spec
  says only that each text is tokenized; how one text is cut into tokens is the
  parameter \<open>tok\<close>.\<close>

definition tokenize :: "(string \<Rightarrow> token list) \<Rightarrow> string list \<Rightarrow> token list list" where
  "tokenize tok lines = map tok lines"

text \<open>The class \<^verbatim>\<open>SNLIDataset\<close>.  A tensor built by \<^verbatim>\<open>paddle.to_tensor\<close> from a list is
  modelled by that list.\<close>

record SNLIDataset =
  self_num_steps :: nat
  self_vocab :: vocabulary
  self_premises :: "nat list list"
  self_hypotheses :: "nat list list"
  self_labels :: "int list"

definition SNLIDataset_pad :: "vocabulary \<Rightarrow> nat \<Rightarrow> token list list \<Rightarrow> nat list list" where
  "SNLIDataset_pad v num_steps lines =
     map (\<lambda>line. truncate_pad (Vocab_getitems v line) num_steps (Vocab_getitem v ''<pad>'')) lines"

definition SNLIDataset_init ::
  "(string \<Rightarrow> token list) \<Rightarrow> string list \<times> string list \<times> int list \<Rightarrow> nat \<Rightarrow>
     vocabulary option \<Rightarrow> SNLIDataset" where
  "SNLIDataset_init tok dataset num_steps vocab =
     (let all_premise_tokens = tokenize tok (fst dataset);
          all_hypothesis_tokens = tokenize tok (fst (snd dataset));
          v = (case vocab of
                 None \<Rightarrow> Vocab (all_premise_tokens @ all_hypothesis_tokens) 5 [''<pad>'']
               | Some given \<Rightarrow> given)
      in \<lparr>self_num_steps = num_steps, self_vocab = v,
          self_premises = SNLIDataset_pad v num_steps all_premise_tokens,
          self_hypotheses = SNLIDataset_pad v num_steps all_hypothesis_tokens,
          self_labels = snd (snd dataset)\<rparr>)"

definition SNLIDataset_getitem :: "SNLIDataset \<Rightarrow> int \<Rightarrow> error + ((nat list \<times> nat list) \<times> int)" where
  "SNLIDataset_getitem ds idx =
     (case getitem (self_premises ds) idx of
        Inl err \<Rightarrow> Inl err
      | Inr p \<Rightarrow>
          (case getitem (self_hypotheses ds) idx of
             Inl err \<Rightarrow> Inl err
           | Inr h \<Rightarrow>
               (case getitem (self_labels ds) idx of
                  Inl err \<Rightarrow> Inl err
                | Inr l \<Rightarrow> Inr ((p, h), l))))"

definition SNLIDataset_len :: "SNLIDataset \<Rightarrow> nat" where
  "SNLIDataset_len ds = length (self_premises ds)"

text \<open>A \<^verbatim>\<open>paddle.io.DataLoader\<close> is kept as the arguments it was constructed with; the
  framework's iteration over it is not modelled.\<close>

record DataLoader =
  loader_dataset :: SNLIDataset
  loader_batch_size :: nat
  loader_shuffle :: bool
  loader_return_list :: bool

text \<open>\<open>data_dir\<close> is the directory \<^verbatim>\<open>d2l.download_extract('SNLI')\<close> returns.\<close>

definition load_data_snli ::
  "(string \<rightharpoonup> string) \<Rightarrow> (string \<Rightarrow> token list) \<Rightarrow> string \<Rightarrow> nat \<Rightarrow> nat \<Rightarrow>
     error + (DataLoader \<times> DataLoader \<times> vocabulary)" where
  "load_data_snli fs tok data_dir batch_size num_steps =
     (case read_snli fs data_dir True of
        Inl err \<Rightarrow> Inl err
      | Inr train_data \<Rightarrow>
          (case read_snli fs data_dir False of
             Inl err \<Rightarrow> Inl err
           | Inr test_data \<Rightarrow>
               (let train_set = SNLIDataset_init tok train_data num_steps None;
                    test_set = SNLIDataset_init tok test_data num_steps (Some (self_vocab train_set));
                    train_iter = \<lparr>loader_dataset = train_set, loader_batch_size = batch_size,
                                  loader_shuffle = True, loader_return_list = True\<rparr>;
                    test_iter = \<lparr>loader_dataset = test_set, loader_batch_size = batch_size,
                                 loader_shuffle = False, loader_return_list = True\<rparr>
                in Inr (train_iter, test_iter, self_vocab train_set))))"

section \<open>Predicates and sample data for stating the properties\<close>

text \<open>A string has a whitespace run when two neighbouring characters are both
  whitespace.\<close>

fun has_space_run :: "string \<Rightarrow> bool" where
  "has_space_run (c # d # cs) = ((isspace c \<and> isspace d) \<or> has_space_run (d # cs))"
| "has_space_run _ = False"


text \<open>A small corpus directory: a training file with a header line, two labelled rows
  and one row without a gold label, and a test file with one labelled row.\<close>

definition sample_train :: string where
  "sample_train =
     ''gold_label'' @ [TAB] @ ''sentence1_parse'' @ [TAB] @ ''sentence2_parse'' @ [NL] @
     ''entailment'' @ [TAB] @ ''( a  ( b ) )'' @ [TAB] @ '' c '' @ [TAB] @ ''x'' @ [NL] @
     ''-'' @ [TAB] @ ''y'' @ [NL] @
     ''neutral'' @ [TAB] @ ''d'' @ [TAB] @ ''e'' @ [NL]"

definition sample_test :: string where
  "sample_test =
     ''gold_label'' @ [TAB] @ ''sentence1_parse'' @ [TAB] @ ''sentence2_parse'' @ [NL] @
     ''contradiction'' @ [TAB] @ ''a'' @ [TAB] @ ''zz'' @ [NL]"

definition sample_fs :: "string \<rightharpoonup> string" where
  "sample_fs = [''data/snli_1.0_train.txt'' \<mapsto> sample_train,
                ''data/snli_1.0_test.txt'' \<mapsto> sample_test]"


text \<open>The training file without its unlabelled row, and a training file whose only row
  has a recognized label but no third field.\<close>

definition sample_train_labelled :: string where
  "sample_train_labelled =
     ''gold_label'' @ [TAB] @ ''sentence1_parse'' @ [TAB] @ ''sentence2_parse'' @ [NL] @
     ''entailment'' @ [TAB] @ ''( a  ( b ) )'' @ [TAB] @ '' c '' @ [TAB] @ ''x'' @ [NL] @
     ''neutral'' @ [TAB] @ ''d'' @ [TAB] @ ''e'' @ [NL]"

definition sample_short :: string where
  "sample_short =
     ''gold_label'' @ [TAB] @ ''sentence1_parse'' @ [TAB] @ ''sentence2_parse'' @ [NL] @
     ''entailment'' @ [TAB] @ ''a lone premise'' @ [NL]"


text \<open>A vocabulary given from outside, for the examples.\<close>

definition sample_vocab :: vocabulary where
  "sample_vocab = \<lparr>token_to_idx = [''<pad>'' \<mapsto> 1, ''a'' \<mapsto> 2, ''b'' \<mapsto> 3], unk = 0\<rparr>"

section \<open>Properties of the text cleaning\<close>

lemma str_split_nonempty: "str_split sep s \<noteq> []"
  by (induction s) (auto split: list.splits)

lemma set_re_sub_spaces: "set (re_sub_spaces s) \<subseteq> insert (CHR '' '') (set s)"
proof (induction s rule: re_sub_spaces.induct)
  case (3 c d cs)
  show ?case
  proof (cases "isspace c \<and> isspace d")
    case True
    with 3 have "set (re_sub_spaces (dropWhile isspace cs)) \<subseteq> insert (CHR '' '') (set (dropWhile isspace cs))"
      by simp
    moreover have "set (dropWhile isspace cs) \<subseteq> set cs"
      by (auto dest: set_dropWhileD)
    ultimately show ?thesis using True by auto
  next
    case False
    with 3 show ?thesis by auto
  qed
qed simp_all

lemma re_sub_spaces_Cons:
  "\<exists>r. re_sub_spaces (x # xs) =
         (if isspace x \<and> xs \<noteq> [] \<and> isspace (hd xs) then CHR '' '' else x) # r"
  by (cases xs) auto

lemma no_run_re_sub_spaces: "\<not> has_space_run (re_sub_spaces s)"
proof (induction s rule: re_sub_spaces.induct)
  case (3 c d cs)
  show ?case
  proof (cases "isspace c \<and> isspace d")
    case True
    let ?u = "dropWhile isspace cs"
    from True 3 have ih: "\<not> has_space_run (re_sub_spaces ?u)" by simp
    from True have eq: "re_sub_spaces (c # d # cs) = CHR '' '' # re_sub_spaces ?u" by simp
    show ?thesis
    proof (cases ?u)
      case Nil
      show ?thesis unfolding eq Nil by simp
    next
      case (Cons x xs)
      then have "\<not> isspace x" using hd_dropWhile [of isspace cs] by auto
      with re_sub_spaces_Cons [of x xs] obtain r where r: "re_sub_spaces (x # xs) = x # r"
        by auto
      from ih have "\<not> has_space_run (x # r)" unfolding Cons r .
      with \<open>\<not> isspace x\<close> show ?thesis unfolding eq Cons r by simp
    qed
  next
    case False
    with 3 have ih: "\<not> has_space_run (re_sub_spaces (d # cs))" by simp
    from re_sub_spaces_Cons [of d cs] obtain r where
      r: "re_sub_spaces (d # cs) = (if isspace d \<and> cs \<noteq> [] \<and> isspace (hd cs) then CHR '' '' else d) # r"
      by blast
    show ?thesis
    proof (cases "isspace d")
      case True
      with False have "\<not> isspace c" by simp
      with ih r False show ?thesis by (auto split: if_splits)
    next
      case d: False
      with ih r False show ?thesis by (auto split: if_splits)
    qed
  qed
qed simp_all

lemma has_space_run_iff:
  "has_space_run s \<longleftrightarrow> (\<exists>i. Suc i < length s \<and> isspace (s ! i) \<and> isspace (s ! Suc i))"
proof (induction s rule: has_space_run.induct)
  case (1 c d cs)
  show ?case
  proof
    assume "has_space_run (c # d # cs)"
    then consider "isspace c \<and> isspace d" | "has_space_run (d # cs)" by auto
    then show "\<exists>i. Suc i < length (c # d # cs) \<and> isspace ((c # d # cs) ! i) \<and> isspace ((c # d # cs) ! Suc i)"
    proof cases
      case 1
      then show ?thesis by (intro exI [of _ 0]) simp
    next
      case 2
      with 1 obtain i where "Suc i < length (d # cs)" "isspace ((d # cs) ! i)" "isspace ((d # cs) ! Suc i)"
        by blast
      then show ?thesis by (intro exI [of _ "Suc i"]) simp
    qed
  next
    assume "\<exists>i. Suc i < length (c # d # cs) \<and> isspace ((c # d # cs) ! i) \<and> isspace ((c # d # cs) ! Suc i)"
    then obtain i where i: "Suc i < length (c # d # cs)" "isspace ((c # d # cs) ! i)" "isspace ((c # d # cs) ! Suc i)"
      by blast
    show "has_space_run (c # d # cs)"
    proof (cases i)
      case 0
      with i show ?thesis by simp
    next
      case (Suc j)
      with i have "Suc j < length (d # cs) \<and> isspace ((d # cs) ! j) \<and> isspace ((d # cs) ! Suc j)"
        by simp
      with 1 show ?thesis by auto
    qed
  qed
qed simp_all

lemma rstrip_take:
  "rev (dropWhile P (rev u)) = take (length u - length (takeWhile P (rev u))) u"
proof -
  have "dropWhile P (rev u) = drop (length (takeWhile P (rev u))) (rev u)"
    by (rule dropWhile_eq_drop)
  then have "rev (dropWhile P (rev u)) = rev (drop (length (takeWhile P (rev u))) (rev u))"
    by simp
  also have "\<dots> = take (length (rev u) - length (takeWhile P (rev u))) (rev (rev u))"
    by (rule rev_drop)
  finally show ?thesis by simp
qed

lemma strip_take_drop: "\<exists>m n. strip s = take n (drop m s)"
proof -
  let ?u = "dropWhile isspace s"
  have "?u = drop (length (takeWhile isspace s)) s"
    by (rule dropWhile_eq_drop)
  moreover have "strip s = take (length ?u - length (takeWhile isspace (rev ?u))) ?u"
    unfolding strip_def by (rule rstrip_take)
  ultimately show ?thesis by metis
qed

lemma no_run_strip:
  assumes "\<not> has_space_run s"
  shows "\<not> has_space_run (strip s)"
proof
  assume "has_space_run (strip s)"
  moreover obtain m n where mn: "strip s = take n (drop m s)"
    using strip_take_drop by blast
  ultimately obtain i where i: "Suc i < length (take n (drop m s))"
      "isspace (take n (drop m s) ! i)" "isspace (take n (drop m s) ! Suc i)"
    by (auto simp: has_space_run_iff)
  then have "Suc (m + i) < length s" "isspace (s ! (m + i))" "isspace (s ! Suc (m + i))"
    by auto
  with assms show False by (auto simp: has_space_run_iff)
qed

lemma set_strip: "set (strip s) \<subseteq> set s"
proof -
  obtain m n where "strip s = take n (drop m s)" using strip_take_drop by blast
  then show ?thesis
    using set_take_subset [of n "drop m s"] set_drop_subset [of m s] by auto
qed

lemma strip_ends:
  assumes "strip s \<noteq> []"
  shows "\<not> isspace (hd (strip s)) \<and> \<not> isspace (last (strip s))"
proof -
  let ?u = "dropWhile isspace s"
  let ?w = "dropWhile isspace (rev ?u)"
  from assms have w: "?w \<noteq> []" by (simp add: strip_def)
  have u: "?u \<noteq> []"
  proof
    assume "?u = []"
    then have "?w = []" by (simp del: dropWhile_eq_Nil_conv)
    with w show False by simp
  qed
  have "last (strip s) = hd ?w" using w by (simp add: strip_def last_rev)
  moreover have "\<not> isspace (hd ?w)" using w by (rule hd_dropWhile)
  moreover have "hd (strip s) = hd ?u"
  proof -
    have "rev ?w = take (length ?u - length (takeWhile isspace (rev ?u))) ?u"
      by (rule rstrip_take)
    moreover have "rev ?w \<noteq> []" using w by simp
    ultimately show ?thesis
      by (metis strip_def hd_take take_eq_Nil neq0_conv)
  qed
  moreover have "\<not> isspace (hd ?u)" using u by (rule hd_dropWhile)
  ultimately show ?thesis by simp
qed

lemma extract_text_no_paren:
  "CHR ''('' \<notin> set (extract_text s) \<and> CHR '')'' \<notin> set (extract_text s)"
proof -
  let ?s2 = "re_sub_delete (CHR '')'') (re_sub_delete (CHR ''('') s)"
  have "CHR ''('' \<notin> set ?s2" "CHR '')'' \<notin> set ?s2"
    by (simp_all add: re_sub_delete_def)
  then have "CHR ''('' \<notin> set (re_sub_spaces ?s2)" "CHR '')'' \<notin> set (re_sub_spaces ?s2)"
    using set_re_sub_spaces [of ?s2] by auto
  then show ?thesis
    using set_strip [of "re_sub_spaces ?s2"] by (auto simp: extract_text_def Let_def)
qed

lemma extract_text_no_run: "\<not> has_space_run (extract_text s)"
  by (simp add: extract_text_def Let_def no_run_strip no_run_re_sub_spaces)

lemma extract_text_ends:
  "extract_text s \<noteq> [] \<Longrightarrow> \<not> isspace (hd (extract_text s)) \<and> \<not> isspace (last (extract_text s))"
  unfolding extract_text_def Let_def by (rule strip_ends)

section \<open>Properties of the reader\<close>

lemma getitem_0: "row \<noteq> [] \<Longrightarrow> getitem row 0 = Inr (row ! 0)"
  by (simp add: getitem_def)

lemma label_set_dom:
  "label_set l \<noteq> None \<longleftrightarrow> l \<in> {''entailment'', ''contradiction'', ''neutral''}"
  by (simp add: label_set_def)

lemma label_set_value:
  "label_set l \<noteq> None \<Longrightarrow>
   label_set l = Some (if l = ''entailment'' then 0 else if l = ''contradiction'' then 1 else 2)"
  by (auto simp: label_set_def split: if_splits)

lemma comprehension_total:
  assumes "\<And>r. r \<in> set rows \<Longrightarrow> r \<noteq> []"
    and "\<And>r. r \<in> set rows \<Longrightarrow> label_set (r ! 0) \<noteq> None \<Longrightarrow> e r = Inr (f r)"
  shows "comprehension e rows = Inr (map f (filter (\<lambda>r. label_set (r ! 0) \<noteq> None) rows))"
  using assms
proof (induction rows)
  case Nil
  show ?case by simp
next
  case (Cons r rows)
  then have ih: "comprehension e rows = Inr (map f (filter (\<lambda>r. label_set (r ! 0) \<noteq> None) rows))"
    by simp
  from Cons.prems have r: "getitem r 0 = Inr (r ! 0)" by (simp add: getitem_0)
  show ?case
  proof (cases "label_set (r ! 0) = None")
    case True
    with r ih show ?thesis by simp
  next
    case False
    with Cons.prems have "e r = Inr (f r)" by simp
    with False r ih show ?thesis by simp
  qed
qed

lemma comprehension_skip:
  assumes "r \<noteq> []" and "label_set (r ! 0) = None"
  shows "comprehension e (a @ r # b) = comprehension e (a @ b)"
proof (induction a)
  case Nil
  from assms show ?case by (simp add: getitem_0)
next
  case (Cons x a)
  then show ?case by (simp only: append_Cons comprehension.simps)
qed

lemma comprehension_elements:
  assumes "comprehension e rows = Inr vs" and "v \<in> set vs"
  shows "\<exists>r \<in> set rows. e r = Inr v"
  using assms
proof (induction rows arbitrary: vs)
  case Nil
  then show ?case by simp
next
  case (Cons r rows)
  then show ?case
    by (auto split: sum.splits if_splits)
qed

lemma comprehension_error:
  assumes "r \<in> set rows" and "r \<noteq> []" and "label_set (r ! 0) \<noteq> None" and "e r = Inl err"
  shows "\<exists>err'. comprehension e rows = Inl err'"
  using assms
proof (induction rows)
  case Nil
  then show ?case by simp
next
  case (Cons x rows)
  then show ?case
    by (auto simp: getitem_0 split: sum.splits if_splits)
qed

lemma comprehension_IndexError:
  assumes "comprehension e rows = Inl err"
    and "\<And>r err'. label_set (r ! 0) \<noteq> None \<Longrightarrow> r \<noteq> [] \<Longrightarrow> e r = Inl err' \<Longrightarrow> err' = IndexError"
  shows "err = IndexError"
  using assms
proof (induction rows)
  case Nil
  then show ?case by simp
next
  case (Cons x rows)
  show ?case
  proof (cases "x = []")
    case True
    with Cons.prems(1) show ?thesis by (simp add: getitem_def)
  next
    case False
    then have x: "getitem x 0 = Inr (x ! 0)" by (simp add: getitem_0)
    show ?thesis
    proof (cases "label_set (x ! 0) = None")
      case True
      with x Cons show ?thesis by simp
    next
      case lab: False
      show ?thesis
      proof (cases "e x")
        case (Inl a)
        with lab x Cons.prems(1) have "err = a" by simp
        with Cons.prems(2) [OF lab False Inl] show ?thesis by simp
      next
        case (Inr v)
        with lab x Cons show ?thesis by (auto split: sum.splits)
      qed
    qed
  qed
qed

lemma rows_of_nonempty: "r \<in> set (rows_of txt) \<Longrightarrow> r \<noteq> []"
  by (auto simp: rows_of_def str_split_nonempty)

lemma premise_of_error: "premise_of r = Inl err \<Longrightarrow> err = IndexError"
  by (auto simp: premise_of_def getitem_def split: if_splits sum.splits)

lemma hypothesis_of_error: "hypothesis_of r = Inl err \<Longrightarrow> err = IndexError"
  by (auto simp: hypothesis_of_def getitem_def split: if_splits sum.splits)

lemma label_of_error:
  "label_set (r ! 0) \<noteq> None \<Longrightarrow> r \<noteq> [] \<Longrightarrow> label_of r = Inl err \<Longrightarrow> err = IndexError"
  by (auto simp: label_of_def getitem_0 split: sum.splits option.splits)

lemma read_snli_error:
  assumes "fs (file_name d t) = Some txt" and "read_snli fs d t = Inl err"
  shows "err = IndexError"
proof -
  let ?rows = "rows_of txt"
  show ?thesis
  proof (cases "comprehension premise_of ?rows")
    case (Inl a)
    with assms have "err = a" by (simp add: read_snli_def Let_def)
    with comprehension_IndexError [OF Inl] premise_of_error show ?thesis by blast
  next
    case ps: (Inr ps)
    show ?thesis
    proof (cases "comprehension hypothesis_of ?rows")
      case (Inl a)
      with assms ps have "err = a" by (simp add: read_snli_def Let_def)
      with comprehension_IndexError [OF Inl] hypothesis_of_error show ?thesis by blast
    next
      case hs: (Inr hs)
      show ?thesis
      proof (cases "comprehension label_of ?rows")
        case (Inl a)
        with assms ps hs have "err = a" by (simp add: read_snli_def Let_def)
        with comprehension_IndexError [OF Inl] label_of_error show ?thesis by blast
      next
        case (Inr ls)
        with assms ps hs show ?thesis by (simp add: read_snli_def Let_def)
      qed
    qed
  qed
qed

lemma read_snli_short_row:
  assumes "fs (file_name d t) = Some txt"
    and "r \<in> set (rows_of txt)" and "label_set (r ! 0) \<noteq> None" and "length r < 3"
  shows "read_snli fs d t = Inl IndexError"
proof -
  from assms(2) have ne: "r \<noteq> []" by (rule rows_of_nonempty)
  from assms(4) have "hypothesis_of r = Inl IndexError"
    by (simp add: hypothesis_of_def getitem_def)
  from comprehension_error [where e = hypothesis_of, OF assms(2) ne assms(3) this]
  obtain e' where "comprehension hypothesis_of (rows_of txt) = Inl e'" by blast
  then have "\<exists>e''. read_snli fs d t = Inl e''"
    using assms(1) by (auto simp: read_snli_def Let_def split: sum.splits)
  then obtain e'' where e'': "read_snli fs d t = Inl e''" by blast
  from read_snli_error [OF assms(1) e''] e'' show ?thesis by simp
qed

lemma read_snli_result:
  assumes "fs (file_name d t) = Some txt"
    and "\<And>r. r \<in> set (rows_of txt) \<Longrightarrow> label_set (r ! 0) \<noteq> None \<Longrightarrow> 3 \<le> length r"
  shows "read_snli fs d t =
     Inr (map (\<lambda>r. extract_text (r ! 1)) (filter (\<lambda>r. label_set (r ! 0) \<noteq> None) (rows_of txt)),
          map (\<lambda>r. extract_text (r ! 2)) (filter (\<lambda>r. label_set (r ! 0) \<noteq> None) (rows_of txt)),
          map (\<lambda>r. if r ! 0 = ''entailment'' then 0 else if r ! 0 = ''contradiction'' then 1 else 2)
            (filter (\<lambda>r. label_set (r ! 0) \<noteq> None) (rows_of txt)))"
proof -
  let ?rows = "rows_of txt"
  have p: "comprehension premise_of ?rows =
      Inr (map (\<lambda>r. extract_text (r ! 1)) (filter (\<lambda>r. label_set (r ! 0) \<noteq> None) ?rows))"
  proof (rule comprehension_total)
    fix r assume "r \<in> set ?rows" "label_set (r ! 0) \<noteq> None"
    with assms(2) have "3 \<le> length r" by simp
    then show "premise_of r = Inr (extract_text (r ! 1))"
      by (simp add: premise_of_def getitem_def)
  qed (rule rows_of_nonempty)
  have h: "comprehension hypothesis_of ?rows =
      Inr (map (\<lambda>r. extract_text (r ! 2)) (filter (\<lambda>r. label_set (r ! 0) \<noteq> None) ?rows))"
  proof (rule comprehension_total)
    fix r assume "r \<in> set ?rows" "label_set (r ! 0) \<noteq> None"
    with assms(2) have "3 \<le> length r" by simp
    then show "hypothesis_of r = Inr (extract_text (r ! 2))"
      by (simp add: hypothesis_of_def getitem_def)
  qed (rule rows_of_nonempty)
  have l: "comprehension label_of ?rows =
      Inr (map (\<lambda>r. if r ! 0 = ''entailment'' then 0 else if r ! 0 = ''contradiction'' then 1 else 2)
            (filter (\<lambda>r. label_set (r ! 0) \<noteq> None) ?rows))"
  proof (rule comprehension_total)
    fix r assume r: "r \<in> set ?rows" "label_set (r ! 0) \<noteq> None"
    then have "r \<noteq> []" by (simp add: rows_of_nonempty)
    with r(2) label_set_value [OF r(2)]
    show "label_of r = Inr (if r ! 0 = ''entailment'' then 0 else if r ! 0 = ''contradiction'' then 1 else 2)"
      by (simp add: label_of_def getitem_0)
  qed (rule rows_of_nonempty)
  show ?thesis
    by (simp only: read_snli_def assms(1) Let_def p h l option.case sum.case)
qed

lemma read_snli_texts:
  assumes "read_snli fs d t = Inr (ps, hs, ls)" and "s \<in> set ps \<union> set hs"
  shows "\<exists>x. s = extract_text x"
proof -
  from assms(1) obtain content where "fs (file_name d t) = Some content"
    by (auto simp: read_snli_def split: option.splits)
  with assms(1) have ps: "comprehension premise_of (rows_of content) = Inr ps"
    and hs: "comprehension hypothesis_of (rows_of content) = Inr hs"
    by (auto simp: read_snli_def Let_def split: sum.splits)
  from assms(2) show ?thesis
  proof
    assume "s \<in> set ps"
    from comprehension_elements [OF ps this] obtain r where "premise_of r = Inr s" by blast
    then show ?thesis
      by (cases "getitem r 1") (auto simp: premise_of_def)
  next
    assume "s \<in> set hs"
    from comprehension_elements [OF hs this] obtain r where "hypothesis_of r = Inr s" by blast
    then show ?thesis
      by (cases "getitem r 2") (auto simp: hypothesis_of_def)
  qed
qed

lemmas reader_defs =
  read_snli_def rows_of_def file_name_def path_join_def NL_def TAB_def getitem_def
  label_set_def premise_of_def hypothesis_of_def label_of_def extract_text_def
  re_sub_delete_def strip_def isspace_def Let_def

lemma sample_fs_train: "sample_fs (file_name ''data'' True) = Some sample_train"
  by (simp add: sample_fs_def file_name_def path_join_def)

lemma sample_fs_test: "sample_fs (file_name ''data'' False) = Some sample_test"
  by (simp add: sample_fs_def file_name_def path_join_def)

lemma rows_of_sample_train:
  "rows_of sample_train =
     [[''entailment'', ''( a  ( b ) )'', '' c '', ''x'' @ [NL]], [''-'', ''y'' @ [NL]],
      [''neutral'', ''d'', ''e'' @ [NL]]]"
  by (simp add: rows_of_def sample_train_def NL_def TAB_def)

lemma read_snli_sample_train:
  "read_snli sample_fs ''data'' True = Inr ([''a b'', ''d''], [''c'', ''e''], [0, 2])"
  by (simp add: sample_fs_def sample_train_def reader_defs)

lemma read_snli_sample_test:
  "read_snli sample_fs ''data'' False = Inr ([''a''], [''zz''], [1])"
  by (simp add: sample_fs_def sample_test_def reader_defs)


lemma read_snli_Some:
  "fs (file_name d t) = Some content \<Longrightarrow>
   read_snli fs d t =
     (case comprehension premise_of (rows_of content) of
        Inl err \<Rightarrow> Inl err
      | Inr ps \<Rightarrow>
          (case comprehension hypothesis_of (rows_of content) of
             Inl err \<Rightarrow> Inl err
           | Inr hs \<Rightarrow>
               (case comprehension label_of (rows_of content) of
                  Inl err \<Rightarrow> Inl err
                | Inr ls \<Rightarrow> Inr (ps, hs, ls))))"
  by (simp add: read_snli_def Let_def)


lemma readlines_line:
  "NL \<notin> set h \<Longrightarrow> readlines (h @ NL # rest) = (h @ [NL]) # readlines rest"
  by (induction h) auto

lemma str_split_field:
  "sep \<notin> set a \<Longrightarrow> str_split sep (a @ sep # b) = a # str_split sep b"
  by (induction a) auto

lemma extract_text_example_premise:
  "extract_text ''A person on a horse jumps ( over ) a broken down airplane .'' =
     ''A person on a horse jumps over a broken down airplane .''"
  by (simp add: extract_text_def re_sub_delete_def strip_def isspace_def)

lemma extract_text_example_hypothesis:
  "extract_text ''A person is outdoors , on a horse .'' = ''A person is outdoors , on a horse .''"
  by (simp add: extract_text_def re_sub_delete_def strip_def isspace_def)

lemma read_snli_example:
  assumes "NL \<notin> set header" and "NL \<notin> set rest"
    and "fs (file_name d t) =
      Some (header @ [NL] @ ''entailment'' @ [TAB] @
            ''A person on a horse jumps ( over ) a broken down airplane .'' @ [TAB] @
            ''A person is outdoors , on a horse .'' @ [TAB] @ rest @ [NL])"
  shows "read_snli fs d t =
     Inr ([''A person on a horse jumps over a broken down airplane .''],
          [''A person is outdoors , on a horse .''], [0])"
proof -
  let ?P = "''A person on a horse jumps ( over ) a broken down airplane .''"
  let ?H = "''A person is outdoors , on a horse .''"
  let ?line = "''entailment'' @ [TAB] @ ?P @ [TAB] @ ?H @ [TAB] @ rest"
  have nl: "NL \<notin> set ?line" using assms(2) by (simp add: NL_def TAB_def)
  have a: "readlines (header @ NL # (?line @ [NL])) = (header @ [NL]) # readlines (?line @ [NL])"
    by (rule readlines_line [OF assms(1)])
  have b: "readlines (?line @ NL # []) = (?line @ [NL]) # readlines []"
    by (rule readlines_line [OF nl])
  have lines: "readlines (header @ [NL] @ ?line @ [NL]) = [header @ [NL], ?line @ [NL]]"
    using a b by simp
  have "str_split TAB (''entailment'' @ TAB # ?P @ TAB # ?H @ TAB # rest @ [NL]) =
      ''entailment'' # str_split TAB (?P @ TAB # ?H @ TAB # rest @ [NL])"
    by (rule str_split_field) (simp add: TAB_def)
  also have "str_split TAB (?P @ TAB # ?H @ TAB # rest @ [NL]) =
      ?P # str_split TAB (?H @ TAB # rest @ [NL])"
    by (rule str_split_field) (simp add: TAB_def)
  also have "str_split TAB (?H @ TAB # rest @ [NL]) = ?H # str_split TAB (rest @ [NL])"
    by (rule str_split_field) (simp add: TAB_def)
  finally have row: "str_split TAB (?line @ [NL]) =
      ''entailment'' # ?P # ?H # str_split TAB (rest @ [NL])"
    by simp
  have rows: "rows_of (header @ [NL] @ ?line @ [NL]) =
      [''entailment'' # ?P # ?H # str_split TAB (rest @ [NL])]"
    unfolding rows_of_def lines using row by simp
  have content: "fs (file_name d t) = Some (header @ [NL] @ ?line @ [NL])"
    using assms(3) by simp
  show ?thesis
    unfolding read_snli_Some [of fs d t, OF content] rows
    by (simp add: getitem_def label_set_def premise_of_def hypothesis_of_def label_of_def
        extract_text_example_premise extract_text_example_hypothesis)
qed


text \<open>
  Claim C10.  Every premise and every hypothesis returned by \<open>read_snli\<close> has no
  leading and no trailing whitespace: a returned string that is not empty neither
  starts nor ends with a whitespace character.
\<close>

theorem read_snli_texts_stripped:
  assumes "read_snli fs data_dir is_train = Inr (ps, hs, ls)"
    and "s \<in> set ps \<union> set hs" and "s \<noteq> []"
  shows "\<not> isspace (hd s) \<and> \<not> isspace (last s)"
proof -
  from read_snli_texts [OF assms(1,2)] obtain x where "s = extract_text x" by blast
  with assms(3) extract_text_ends [of x] show ?thesis by simp
qed

theorem read_snli_texts_stripped_witness:
  "read_snli sample_fs ''data'' True = Inr ([''a b'', ''d''], [''c'', ''e''], [0, 2]) \<and>
   ''a b'' \<in> set [''a b'', ''d''] \<union> set [''c'', ''e''] \<and> ''a b'' \<noteq> [] \<and>
   \<not> isspace (hd ''a b'') \<and> \<not> isspace (last ''a b'')"
proof -
  have "''a b'' \<in> set [''a b'', ''d''] \<union> set [''c'', ''e'']" by simp
  from read_snli_texts_stripped [OF read_snli_sample_train this] read_snli_sample_train
  show ?thesis by simp
qed

text \<open>
  Claim C1 (amended).  A row whose first tab-separated field is not one of the three
  recognized labels is silently dropped, whether or not the row is otherwise well
  formed: deleting its line from the file changes nothing in what \<open>read_snli\<close>
  returns or raises.  A row with a recognized label and fewer than three fields is not
  dropped: \<open>read_snli\<close> raises \<^verbatim>\<open>IndexError\<close>.
\<close>

theorem read_snli_unrecognized_dropped:
  assumes "fs (file_name data_dir is_train) = Some content"
  shows "(fs' (file_name data_dir is_train) = Some content' \<and>
          readlines content = header # before @ line # after \<and>
          readlines content' = header # before @ after \<and>
          str_split TAB line ! 0 \<notin> {''entailment'', ''contradiction'', ''neutral''}
          \<longrightarrow> read_snli fs data_dir is_train = read_snli fs' data_dir is_train) \<and>
         ((\<exists>row \<in> set (rows_of content).
             row ! 0 \<in> {''entailment'', ''contradiction'', ''neutral''} \<and> length row < 3)
          \<longrightarrow> read_snli fs data_dir is_train = Inl IndexError)"
proof (intro conjI impI)
  assume a: "fs' (file_name data_dir is_train) = Some content' \<and>
          readlines content = header # before @ line # after \<and>
          readlines content' = header # before @ after \<and>
          str_split TAB line ! 0 \<notin> {''entailment'', ''contradiction'', ''neutral''}"
  let ?r = "str_split TAB line"
  let ?a = "map (str_split TAB) before"
  let ?b = "map (str_split TAB) after"
  from a have rows: "rows_of content = ?a @ ?r # ?b" and rows': "rows_of content' = ?a @ ?b"
    by (simp_all add: rows_of_def)
  have ne: "?r \<noteq> []" by (rule str_split_nonempty)
  from a have un: "label_set (?r ! 0) = None"
    using label_set_dom [of "?r ! 0"] by blast
  have "comprehension e (rows_of content) = comprehension e (rows_of content')" for e :: "string list \<Rightarrow> error + 'b"
    unfolding rows rows' by (rule comprehension_skip [OF ne un])
  then have "comprehension premise_of (rows_of content) = comprehension premise_of (rows_of content')"
    "comprehension hypothesis_of (rows_of content) = comprehension hypothesis_of (rows_of content')"
    "comprehension label_of (rows_of content) = comprehension label_of (rows_of content')"
    by blast+
  moreover from a have f': "fs' (file_name data_dir is_train) = Some content'" by simp
  ultimately show "read_snli fs data_dir is_train = read_snli fs' data_dir is_train"
    by (simp only: read_snli_Some [of fs data_dir is_train content, OF assms]
        read_snli_Some [of fs' data_dir is_train content', OF f'])
next
  assume "\<exists>row \<in> set (rows_of content).
             row ! 0 \<in> {''entailment'', ''contradiction'', ''neutral''} \<and> length row < 3"
  then obtain row where row: "row \<in> set (rows_of content)"
      "row ! 0 \<in> {''entailment'', ''contradiction'', ''neutral''}" "length row < 3"
    by blast
  from row(2) have "label_set (row ! 0) \<noteq> None" by (simp only: label_set_dom)
  from read_snli_short_row [of fs data_dir is_train content, OF assms row(1) this row(3)]
  show "read_snli fs data_dir is_train = Inl IndexError" .
qed

theorem read_snli_unrecognized_dropped_witness:
  "sample_fs (file_name ''data'' True) = Some sample_train \<and>
   [''data/snli_1.0_train.txt'' \<mapsto> sample_train_labelled] (file_name ''data'' True) =
     Some sample_train_labelled \<and>
   readlines sample_train =
     (''gold_label'' @ [TAB] @ ''sentence1_parse'' @ [TAB] @ ''sentence2_parse'' @ [NL]) #
     [''entailment'' @ [TAB] @ ''( a  ( b ) )'' @ [TAB] @ '' c '' @ [TAB] @ ''x'' @ [NL]] @
     (''-'' @ [TAB] @ ''y'' @ [NL]) # [''neutral'' @ [TAB] @ ''d'' @ [TAB] @ ''e'' @ [NL]] \<and>
   readlines sample_train_labelled =
     (''gold_label'' @ [TAB] @ ''sentence1_parse'' @ [TAB] @ ''sentence2_parse'' @ [NL]) #
     [''entailment'' @ [TAB] @ ''( a  ( b ) )'' @ [TAB] @ '' c '' @ [TAB] @ ''x'' @ [NL]] @
     [''neutral'' @ [TAB] @ ''d'' @ [TAB] @ ''e'' @ [NL]] \<and>
   str_split TAB (''-'' @ [TAB] @ ''y'' @ [NL]) ! 0 \<notin> {''entailment'', ''contradiction'', ''neutral''} \<and>
   read_snli sample_fs ''data'' True =
     read_snli [''data/snli_1.0_train.txt'' \<mapsto> sample_train_labelled] ''data'' True \<and>
   [''data/snli_1.0_train.txt'' \<mapsto> sample_short] (file_name ''data'' True) = Some sample_short \<and>
   (\<exists>row \<in> set (rows_of sample_short).
      row ! 0 \<in> {''entailment'', ''contradiction'', ''neutral''} \<and> length row < 3) \<and>
   read_snli [''data/snli_1.0_train.txt'' \<mapsto> sample_short] ''data'' True = Inl IndexError"
proof -
  have f': "[''data/snli_1.0_train.txt'' \<mapsto> sample_train_labelled] (file_name ''data'' True) =
      Some sample_train_labelled"
    by (simp add: file_name_def path_join_def)
  have l: "readlines sample_train =
     (''gold_label'' @ [TAB] @ ''sentence1_parse'' @ [TAB] @ ''sentence2_parse'' @ [NL]) #
     [''entailment'' @ [TAB] @ ''( a  ( b ) )'' @ [TAB] @ '' c '' @ [TAB] @ ''x'' @ [NL]] @
     (''-'' @ [TAB] @ ''y'' @ [NL]) # [''neutral'' @ [TAB] @ ''d'' @ [TAB] @ ''e'' @ [NL]]"
    by (simp add: sample_train_def NL_def TAB_def)
  have l': "readlines sample_train_labelled =
     (''gold_label'' @ [TAB] @ ''sentence1_parse'' @ [TAB] @ ''sentence2_parse'' @ [NL]) #
     [''entailment'' @ [TAB] @ ''( a  ( b ) )'' @ [TAB] @ '' c '' @ [TAB] @ ''x'' @ [NL]] @
     [''neutral'' @ [TAB] @ ''d'' @ [TAB] @ ''e'' @ [NL]]"
    by (simp add: sample_train_labelled_def NL_def TAB_def)
  have u: "str_split TAB (''-'' @ [TAB] @ ''y'' @ [NL]) ! 0 \<notin> {''entailment'', ''contradiction'', ''neutral''}"
    by (simp add: TAB_def NL_def)
  have s: "[''data/snli_1.0_train.txt'' \<mapsto> sample_short] (file_name ''data'' True) = Some sample_short"
    by (simp add: file_name_def path_join_def)
  have r: "\<exists>row \<in> set (rows_of sample_short).
      row ! 0 \<in> {''entailment'', ''contradiction'', ''neutral''} \<and> length row < 3"
    by (simp add: rows_of_def sample_short_def NL_def TAB_def)
  from read_snli_unrecognized_dropped [where fs = sample_fs and data_dir = "''data''"
      and is_train = True and content = sample_train
      and fs' = "[''data/snli_1.0_train.txt'' \<mapsto> sample_train_labelled]"
      and content' = sample_train_labelled, OF sample_fs_train]
    f' l l' u
  have 1: "read_snli sample_fs ''data'' True =
     read_snli [''data/snli_1.0_train.txt'' \<mapsto> sample_train_labelled] ''data'' True"
    by blast
  from read_snli_unrecognized_dropped [where fs = "[''data/snli_1.0_train.txt'' \<mapsto> sample_short]"
      and data_dir = "''data''" and is_train = True and content = sample_short, OF s] r
  have 2: "read_snli [''data/snli_1.0_train.txt'' \<mapsto> sample_short] ''data'' True = Inl IndexError"
    by blast
  from sample_fs_train f' l l' u 1 s r 2 show ?thesis by blast
qed


text \<open>A malformed row is not always dropped without an error: a row that carries the
  label \<^verbatim>\<open>entailment\<close> and a premise but no hypothesis field makes the reader raise
  \<^verbatim>\<open>IndexError\<close>.\<close>

theorem read_snli_short_row_raises:
  "read_snli [''data/snli_1.0_train.txt'' \<mapsto>
      ''gold_label'' @ [TAB] @ ''sentence1_parse'' @ [TAB] @ ''sentence2_parse'' @ [NL] @
      ''entailment'' @ [TAB] @ ''a lone premise'' @ [NL]] ''data'' True = Inl IndexError"
  by (simp add: reader_defs)


text \<open>
  Claim C2 (amended).  For a file in which every row with a recognized label has at least three
  tab-separated fields, \<open>read_snli\<close> skips the first line, keeps exactly the rows
  whose first field is \<^verbatim>\<open>entailment\<close>, \<^verbatim>\<open>contradiction\<close> or \<^verbatim>\<open>neutral\<close>, and returns,
  in the order of the rows, the cleaned second fields as premises, the cleaned third
  fields as hypotheses and the codes 0, 1, 2 of the first fields as labels: three
  sequences of equal length.
\<close>

theorem read_snli_parallel_sequences:
  assumes "fs (file_name data_dir is_train) = Some content"
    and "\<forall>row \<in> set (map (str_split TAB) (drop 1 (readlines content))).
           row ! 0 \<in> {''entailment'', ''contradiction'', ''neutral''} \<longrightarrow> 3 \<le> length row"
  shows "let rows = map (str_split TAB) (drop 1 (readlines content));
             kept = filter (\<lambda>row. row ! 0 \<in> {''entailment'', ''contradiction'', ''neutral''}) rows;
             ps = map (\<lambda>row. extract_text (row ! 1)) kept;
             hs = map (\<lambda>row. extract_text (row ! 2)) kept;
             ls = map (\<lambda>row. if row ! 0 = ''entailment'' then 0
                              else if row ! 0 = ''contradiction'' then 1 else 2) kept
         in read_snli fs data_dir is_train = Inr (ps, hs, ls) \<and>
            length ps = length hs \<and> length hs = length ls"
proof -
  have "r \<in> set (rows_of content) \<Longrightarrow> label_set (r ! 0) \<noteq> None \<Longrightarrow> 3 \<le> length r" for r
    using assms(2) by (simp only: label_set_dom rows_of_def)
  from read_snli_result [of fs data_dir is_train content, OF assms(1) this]
  show ?thesis
    by (simp only: Let_def label_set_dom rows_of_def length_map simp_thms)
qed

theorem read_snli_parallel_sequences_witness:
  "sample_fs (file_name ''data'' True) = Some sample_train \<and>
   map (str_split TAB) (drop 1 (readlines sample_train)) =
     [[''entailment'', ''( a  ( b ) )'', '' c '', ''x'' @ [NL]], [''-'', ''y'' @ [NL]],
      [''neutral'', ''d'', ''e'' @ [NL]]] \<and>
   read_snli sample_fs ''data'' True = Inr ([''a b'', ''d''], [''c'', ''e''], [0, 2])"
proof -
  have rows: "map (str_split TAB) (drop 1 (readlines sample_train)) =
     [[''entailment'', ''( a  ( b ) )'', '' c '', ''x'' @ [NL]], [''-'', ''y'' @ [NL]],
      [''neutral'', ''d'', ''e'' @ [NL]]]"
    using rows_of_sample_train by (simp only: rows_of_def)
  have "\<forall>row \<in> set (map (str_split TAB) (drop 1 (readlines sample_train))).
           row ! 0 \<in> {''entailment'', ''contradiction'', ''neutral''} \<longrightarrow> 3 \<le> length row"
    unfolding rows by simp
  from read_snli_parallel_sequences [where fs = sample_fs and data_dir = "''data''"
      and is_train = True and content = sample_train, OF sample_fs_train this]
  have "read_snli sample_fs ''data'' True = Inr ([''a b'', ''d''], [''c'', ''e''], [0, 2])"
    unfolding rows by (simp add: Let_def extract_text_def re_sub_delete_def strip_def isspace_def NL_def)
  with sample_fs_train rows show ?thesis by simp
qed

text \<open>Not every input file yields three sequences: a test file whose last line is the
  bare label \<^verbatim>\<open>neutral\<close>, with no tab and no newline after it, gives a row of one field,
  and the premise comprehension raises \<^verbatim>\<open>IndexError\<close> at \<^verbatim>\<open>row[1]\<close>.\<close>

theorem read_snli_bare_label_raises:
  "read_snli [''data/snli_1.0_test.txt'' \<mapsto>
      ''gold_label'' @ [TAB] @ ''sentence1_parse'' @ [TAB] @ ''sentence2_parse'' @ [NL] @
      ''contradiction'' @ [TAB] @ ''a'' @ [TAB] @ ''b'' @ [NL] @
      ''neutral''] ''data'' False = Inl IndexError"
  by (simp add: reader_defs)

text \<open>
  Claim C8.  Every premise and hypothesis returned by \<open>read_snli\<close> contains no
  parenthesis and no two neighbouring whitespace characters; and a file made of a
  header line and the example line of the specification (whatever columns follow its
  third one) is read as the premise
  \<^verbatim>\<open>A person on a horse jumps over a broken down airplane .\<close>, the hypothesis
  \<^verbatim>\<open>A person is outdoors , on a horse .\<close> and the label 0.
\<close>

theorem read_snli_texts_clean:
  "(read_snli fs data_dir is_train = Inr (ps, hs, ls) \<longrightarrow>
      (\<forall>s \<in> set ps \<union> set hs.
          CHR ''('' \<notin> set s \<and> CHR '')'' \<notin> set s \<and>
          (\<forall>i. Suc i < length s \<longrightarrow> \<not> (isspace (s ! i) \<and> isspace (s ! Suc i))))) \<and>
   (NL \<notin> set header \<and> NL \<notin> set rest \<and>
    fs' (file_name data_dir' is_train') =
      Some (header @ [NL] @ ''entailment'' @ [TAB] @
            ''A person on a horse jumps ( over ) a broken down airplane .'' @ [TAB] @
            ''A person is outdoors , on a horse .'' @ [TAB] @ rest @ [NL]) \<longrightarrow>
    read_snli fs' data_dir' is_train' =
      Inr ([''A person on a horse jumps over a broken down airplane .''],
           [''A person is outdoors , on a horse .''], [0]))"
proof (intro conjI impI ballI allI)
  fix s
  assume r: "read_snli fs data_dir is_train = Inr (ps, hs, ls)" and s: "s \<in> set ps \<union> set hs"
  from read_snli_texts [OF r s] obtain x where x: "s = extract_text x" by blast
  from extract_text_no_paren [of x] x
  show "CHR ''('' \<notin> set s" and "CHR '')'' \<notin> set s" by simp_all
  fix i
  assume "Suc i < length s"
  with extract_text_no_run [of x] x show "\<not> (isspace (s ! i) \<and> isspace (s ! Suc i))"
    by (auto simp: has_space_run_iff)
next
  assume "NL \<notin> set header \<and> NL \<notin> set rest \<and>
    fs' (file_name data_dir' is_train') =
      Some (header @ [NL] @ ''entailment'' @ [TAB] @
            ''A person on a horse jumps ( over ) a broken down airplane .'' @ [TAB] @
            ''A person is outdoors , on a horse .'' @ [TAB] @ rest @ [NL])"
  then show "read_snli fs' data_dir' is_train' =
      Inr ([''A person on a horse jumps over a broken down airplane .''],
           [''A person is outdoors , on a horse .''], [0])"
    using read_snli_example [of header rest fs' data_dir' is_train'] by blast
qed

theorem read_snli_texts_clean_witness:
  "read_snli sample_fs ''data'' True = Inr ([''a b'', ''d''], [''c'', ''e''], [0, 2]) \<and>
   ''a b'' \<in> set [''a b'', ''d''] \<union> set [''c'', ''e''] \<and>
   CHR ''('' \<notin> set ''a b'' \<and> CHR '')'' \<notin> set ''a b'' \<and>
   Suc 0 < length ''a b'' \<and> \<not> (isspace (''a b'' ! 0) \<and> isspace (''a b'' ! Suc 0)) \<and>
   NL \<notin> set ''gold_label'' \<and> NL \<notin> set ''...'' \<and>
   [''data/snli_1.0_train.txt'' \<mapsto>
      ''gold_label'' @ [NL] @ ''entailment'' @ [TAB] @
      ''A person on a horse jumps ( over ) a broken down airplane .'' @ [TAB] @
      ''A person is outdoors , on a horse .'' @ [TAB] @ ''...'' @ [NL]] (file_name ''data'' True) =
     Some (''gold_label'' @ [NL] @ ''entailment'' @ [TAB] @
      ''A person on a horse jumps ( over ) a broken down airplane .'' @ [TAB] @
      ''A person is outdoors , on a horse .'' @ [TAB] @ ''...'' @ [NL]) \<and>
   read_snli [''data/snli_1.0_train.txt'' \<mapsto>
      ''gold_label'' @ [NL] @ ''entailment'' @ [TAB] @
      ''A person on a horse jumps ( over ) a broken down airplane .'' @ [TAB] @
      ''A person is outdoors , on a horse .'' @ [TAB] @ ''...'' @ [NL]] ''data'' True =
     Inr ([''A person on a horse jumps over a broken down airplane .''],
          [''A person is outdoors , on a horse .''], [0])"
proof -
  let ?fs = "[''data/snli_1.0_train.txt'' \<mapsto>
      ''gold_label'' @ [NL] @ ''entailment'' @ [TAB] @
      ''A person on a horse jumps ( over ) a broken down airplane .'' @ [TAB] @
      ''A person is outdoors , on a horse .'' @ [TAB] @ ''...'' @ [NL]]"
  note inst = read_snli_texts_clean [where fs = sample_fs and data_dir = "''data''"
      and is_train = True and ps = "[''a b'', ''d'']" and hs = "[''c'', ''e'']" and ls = "[0, 2]"
      and header = "''gold_label''" and rest = "''...''" and fs' = ?fs
      and data_dir' = "''data''" and is_train' = True]
  have m: "''a b'' \<in> set [''a b'', ''d''] \<union> set [''c'', ''e'']" by simp
  have n: "NL \<notin> set ''gold_label''" "NL \<notin> set ''...''" by (simp_all add: NL_def)
  have f: "?fs (file_name ''data'' True) =
     Some (''gold_label'' @ [NL] @ ''entailment'' @ [TAB] @
      ''A person on a horse jumps ( over ) a broken down airplane .'' @ [TAB] @
      ''A person is outdoors , on a horse .'' @ [TAB] @ ''...'' @ [NL])"
    by (simp add: file_name_def path_join_def)
  from inst read_snli_sample_train m
  have 1: "CHR ''('' \<notin> set ''a b'' \<and> CHR '')'' \<notin> set ''a b'' \<and>
      (\<forall>i. Suc i < length ''a b'' \<longrightarrow> \<not> (isspace (''a b'' ! i) \<and> isspace (''a b'' ! Suc i)))"
    by blast
  then have "Suc 0 < length ''a b'' \<longrightarrow> \<not> (isspace (''a b'' ! 0) \<and> isspace (''a b'' ! Suc 0))"
    by blast
  then have 2: "\<not> (isspace (''a b'' ! 0) \<and> isspace (''a b'' ! Suc 0))" by simp
  from inst n f
  have 3: "read_snli ?fs ''data'' True =
     Inr ([''A person on a horse jumps over a broken down airplane .''],
          [''A person is outdoors , on a horse .''], [0])"
    by blast
  have 4: "Suc 0 < length ''a b''" by simp
  from read_snli_sample_train m 1 2 4 n f 3 show ?thesis by blast
qed

section \<open>Properties of the vocabulary, the padding and the dataset\<close>

lemma length_truncate_pad: "length (truncate_pad line n p) = n"
  by (simp add: truncate_pad_def)

lemma length_Vocab_getitems: "length (Vocab_getitems v line) = length line"
  by (simp add: Vocab_getitems_def)

lemma dom_zip_upt: "dom (map_of (zip kept [1 ..< Suc (length kept)])) = set kept"
  by (rule dom_map_of_zip) (simp del: upt_Suc)

lemma Vocab_kept:
  "dom (token_to_idx (Vocab tokens min_freq reserved)) =
     set reserved \<union> {t \<in> set (concat tokens). min_freq \<le> count_list (concat tokens) t}"
proof -
  let ?corpus = "concat tokens"
  let ?kept = "reserved @ filter (\<lambda>t. min_freq \<le> count_list ?corpus t \<and> t \<notin> set reserved) (remdups ?corpus)"
  have "token_to_idx (Vocab tokens min_freq reserved) = map_of (zip ?kept [1 ..< Suc (length ?kept)])"
    by (simp add: Vocab_def Let_def del: upt_Suc)
  then have "dom (token_to_idx (Vocab tokens min_freq reserved)) = set ?kept"
    by (simp only: dom_zip_upt)
  then show ?thesis by auto
qed

lemma Vocab_unk: "unk (Vocab tokens min_freq reserved) = 0"
  by (simp add: Vocab_def Let_def)

lemma Vocab_ids:
  assumes "distinct reserved"
  shows "\<exists>kept. distinct kept \<and>
     token_to_idx (Vocab tokens min_freq reserved) = map_of (zip kept [1 ..< Suc (length kept)])"
proof -
  let ?corpus = "concat tokens"
  let ?frequent = "filter (\<lambda>t. min_freq \<le> count_list ?corpus t \<and> t \<notin> set reserved) (remdups ?corpus)"
  have "distinct (reserved @ ?frequent)" using assms by auto
  moreover have "token_to_idx (Vocab tokens min_freq reserved) =
      map_of (zip (reserved @ ?frequent) [1 ..< Suc (length (reserved @ ?frequent))])"
    by (simp add: Vocab_def Let_def del: upt_Suc)
  ultimately show ?thesis by blast
qed

lemma map_of_zip_upt:
  assumes "distinct kept" and "map_of (zip kept [1 ..< Suc (length kept)]) t = Some i"
  shows "0 < i \<and> i \<le> length kept \<and> kept ! (i - 1) = t"
proof -
  from assms(2) have "(t, i) \<in> set (zip kept [1 ..< Suc (length kept)])"
    by (rule map_of_SomeD)
  then obtain k where k: "k < length kept" "kept ! k = t" "[1 ..< Suc (length kept)] ! k = i"
    by (auto simp: set_zip)
  then have "i = Suc k" by (simp add: nth_upt del: upt_Suc)
  with k show ?thesis by simp
qed

lemma Vocab_getitem_own:
  assumes "distinct reserved"
  shows "(Vocab_getitem (Vocab tokens min_freq reserved) t \<noteq> unk (Vocab tokens min_freq reserved))
     \<longleftrightarrow> t \<in> dom (token_to_idx (Vocab tokens min_freq reserved))"
proof -
  let ?v = "Vocab tokens min_freq reserved"
  from Vocab_ids [OF assms] obtain kept where kept: "distinct kept"
    "token_to_idx ?v = map_of (zip kept [1 ..< Suc (length kept)])" by blast
  show ?thesis
  proof (cases "token_to_idx ?v t")
    case None
    then show ?thesis by (auto simp: Vocab_getitem_def)
  next
    case (Some i)
    with kept map_of_zip_upt [of kept t i] have "0 < i" by simp
    with Some show ?thesis by (auto simp: Vocab_getitem_def Vocab_unk)
  qed
qed

lemma Vocab_getitem_inj:
  assumes "distinct reserved"
  shows "inj_on (Vocab_getitem (Vocab tokens min_freq reserved))
     (dom (token_to_idx (Vocab tokens min_freq reserved)))"
proof (rule inj_onI)
  let ?v = "Vocab tokens min_freq reserved"
  fix s t
  assume "s \<in> dom (token_to_idx ?v)" "t \<in> dom (token_to_idx ?v)"
    and eq: "Vocab_getitem ?v s = Vocab_getitem ?v t"
  then obtain i j where i: "token_to_idx ?v s = Some i" and j: "token_to_idx ?v t = Some j"
    by blast
  with eq have "i = j" by (simp add: Vocab_getitem_def)
  from Vocab_ids [OF assms] obtain kept where kept: "distinct kept"
    "token_to_idx ?v = map_of (zip kept [1 ..< Suc (length kept)])" by blast
  from kept i map_of_zip_upt [of kept s i] have "kept ! (i - 1) = s" by simp
  moreover from kept j map_of_zip_upt [of kept t j] have "kept ! (j - 1) = t" by simp
  ultimately show "s = t" using \<open>i = j\<close> by simp
qed

lemma count_list_pos: "0 < count_list xs x \<longleftrightarrow> x \<in> set xs"
  by (induction xs) auto

lemma getitem_in_range:
  "0 \<le> i \<Longrightarrow> i < int (length xs) \<Longrightarrow> getitem xs i = Inr (xs ! nat i)"
  by (simp add: getitem_def)

lemmas dataset_defs =
  SNLIDataset_init_def SNLIDataset_pad_def SNLIDataset_getitem_def SNLIDataset_len_def
  tokenize_def truncate_pad_def Vocab_getitems_def Vocab_getitem_def Let_def

text \<open>
  Claim C3.  Every token sequence that \<open>SNLIDataset._pad\<close> processes becomes an id
  sequence of length exactly \<open>num_steps\<close>: the first \<open>num_steps\<close> ids of a sequence
  longer than \<open>num_steps\<close>, and otherwise all its ids followed by the padding id of
  the vocabulary up to that length.
\<close>

theorem SNLIDataset_pad_exact_length:
  "length (SNLIDataset_pad v num_steps lines) = length lines \<and>
   (\<forall>i < length lines.
      let ids = Vocab_getitems v (lines ! i);
          row = SNLIDataset_pad v num_steps lines ! i
      in length ids = length (lines ! i) \<and>
         length row = num_steps \<and>
         (num_steps < length (lines ! i) \<longrightarrow> row = take num_steps ids) \<and>
         (length (lines ! i) \<le> num_steps \<longrightarrow>
            row = ids @ replicate (num_steps - length (lines ! i)) (Vocab_getitem v ''<pad>'')))"
  by (simp add: SNLIDataset_pad_def Let_def length_truncate_pad length_Vocab_getitems)
     (simp add: truncate_pad_def length_Vocab_getitems)

theorem SNLIDataset_pad_exact_length_witness:
  "length (SNLIDataset_pad sample_vocab 3 [[''a'', ''b'', ''c'', ''a''], [''b'']]) = 2 \<and>
   SNLIDataset_pad sample_vocab 3 [[''a'', ''b'', ''c'', ''a''], [''b'']] ! 0 = [2, 3, 0] \<and>
   SNLIDataset_pad sample_vocab 3 [[''a'', ''b'', ''c'', ''a''], [''b'']] ! 1 = [3, 1, 1] \<and>
   length (SNLIDataset_pad sample_vocab 3 [[''a'', ''b'', ''c'', ''a''], [''b'']] ! 0) = 3 \<and>
   length (SNLIDataset_pad sample_vocab 3 [[''a'', ''b'', ''c'', ''a''], [''b'']] ! 1) = 3"
  using SNLIDataset_pad_exact_length [of sample_vocab 3 "[[''a'', ''b'', ''c'', ''a''], [''b'']]"]
  by (simp add: sample_vocab_def dataset_defs eval_nat_numeral)

text \<open>
  Claim C4.  Padding a sequence of at most \<open>num_steps\<close> tokens yields its ids followed
  by padding ids only; cutting the result at the original length gives the original ids
  back, and truncating or padding the result once more changes nothing.
\<close>

theorem truncate_pad_round_trip:
  assumes "length line \<le> num_steps"
  shows "let ids = Vocab_getitems v line;
             pad = Vocab_getitem v ''<pad>'';
             padded = truncate_pad ids num_steps pad
         in padded = ids @ replicate (num_steps - length line) pad \<and>
            take (length line) padded = ids \<and>
            (\<forall>x \<in> set (drop (length line) padded). x = pad) \<and>
            truncate_pad padded num_steps pad = padded"
  using assms by (simp add: Let_def truncate_pad_def length_Vocab_getitems)

theorem truncate_pad_round_trip_witness:
  "length [''a'', ''b''] \<le> (4::nat) \<and>
   truncate_pad (Vocab_getitems sample_vocab [''a'', ''b'']) 4 (Vocab_getitem sample_vocab ''<pad>'') =
     [2, 3, 1, 1] \<and>
   take (length [''a'', ''b'']) [2, 3, 1, 1::nat] = Vocab_getitems sample_vocab [''a'', ''b'']"
proof -
  have "length [''a'', ''b''] \<le> (4::nat)" by simp
  from truncate_pad_round_trip [OF this, of sample_vocab] show ?thesis
    by (simp add: sample_vocab_def dataset_defs eval_nat_numeral)
qed

text \<open>
  Claim C5.  Constructed without a vocabulary, the dataset builds one from the token
  lists of all premises followed by those of all hypotheses, with minimum frequency 5
  and the reserved token \<^verbatim>\<open><pad>\<close>: the tokens of the vocabulary are exactly those
  occurring at least five times in that corpus, and the padding token; each of them
  has an id of its own, different from the unknown id, which every other token gets.
\<close>

theorem SNLIDataset_builds_vocab:
  "let ds = SNLIDataset_init tok (ps, hs, ls) num_steps None;
       v = self_vocab ds;
       corpus = concat (tokenize tok ps @ tokenize tok hs)
   in v = Vocab (tokenize tok ps @ tokenize tok hs) 5 [''<pad>''] \<and>
      dom (token_to_idx v) = {t. 5 \<le> count_list corpus t} \<union> {''<pad>''} \<and>
      (\<forall>t. Vocab_getitem v t \<noteq> unk v \<longleftrightarrow> 5 \<le> count_list corpus t \<or> t = ''<pad>'') \<and>
      inj_on (Vocab_getitem v) ({t. 5 \<le> count_list corpus t} \<union> {''<pad>''})"
proof -
  let ?tokens = "tokenize tok ps @ tokenize tok hs"
  let ?v = "Vocab ?tokens 5 [''<pad>'']"
  have v: "self_vocab (SNLIDataset_init tok (ps, hs, ls) num_steps None) = ?v"
    by (simp add: SNLIDataset_init_def Let_def)
  have "5 \<le> count_list (concat ?tokens) t \<Longrightarrow> t \<in> set (concat ?tokens)" for t
    using count_list_pos [of "concat ?tokens" t] by linarith
  then have d: "dom (token_to_idx ?v) = {t. 5 \<le> count_list (concat ?tokens) t} \<union> {''<pad>''}"
    unfolding Vocab_kept by auto
  have o: "Vocab_getitem ?v t \<noteq> unk ?v \<longleftrightarrow> 5 \<le> count_list (concat ?tokens) t \<or> t = ''<pad>''" for t
    using Vocab_getitem_own [of "[''<pad>'']" ?tokens 5 t] unfolding d by auto
  have i: "inj_on (Vocab_getitem ?v) ({t. 5 \<le> count_list (concat ?tokens) t} \<union> {''<pad>''})"
    using Vocab_getitem_inj [of "[''<pad>'']" ?tokens 5] unfolding d by simp
  from d o i show ?thesis unfolding Let_def v by blast
qed

theorem SNLIDataset_builds_vocab_witness:
  "Vocab_getitem (self_vocab (SNLIDataset_init (str_split (CHR '' ''))
      ([''a a a'', ''b''], [''a a'', ''b c''], [0, 1]) 3 None)) ''a'' \<noteq>
   unk (self_vocab (SNLIDataset_init (str_split (CHR '' ''))
      ([''a a a'', ''b''], [''a a'', ''b c''], [0, 1]) 3 None)) \<and>
   Vocab_getitem (self_vocab (SNLIDataset_init (str_split (CHR '' ''))
      ([''a a a'', ''b''], [''a a'', ''b c''], [0, 1]) 3 None)) ''b'' =
   unk (self_vocab (SNLIDataset_init (str_split (CHR '' ''))
      ([''a a a'', ''b''], [''a a'', ''b c''], [0, 1]) 3 None))"
proof -
  let ?ds = "SNLIDataset_init (str_split (CHR '' ''))
      ([''a a a'', ''b''], [''a a'', ''b c''], [0, 1]) 3 None"
  let ?corpus = "concat (tokenize (str_split (CHR '' '')) [''a a a'', ''b''] @
      tokenize (str_split (CHR '' '')) [''a a'', ''b c''])"
  from SNLIDataset_builds_vocab [of "str_split (CHR '' '')" "[''a a a'', ''b'']"
      "[''a a'', ''b c'']" "[0, 1]" 3]
  have own: "Vocab_getitem (self_vocab ?ds) t \<noteq> unk (self_vocab ?ds) \<longleftrightarrow>
      5 \<le> count_list ?corpus t \<or> t = ''<pad>''" for t
    unfolding Let_def by blast
  have "5 \<le> count_list ?corpus ''a''" and "\<not> 5 \<le> count_list ?corpus ''b''"
    by (simp_all add: tokenize_def)
  with own [of "''a''"] own [of "''b''"] show ?thesis by simp
qed

text \<open>
  Claim C6.  A dataset constructed with a vocabulary stores that vocabulary and pads
  with it; \<open>load_data_snli\<close> builds the vocabulary from the training data alone and
  hands it to the test dataset, so both datasets and the returned vocabulary are the
  one built from the training premises and hypotheses.
\<close>

theorem load_data_snli_vocab_from_train:
  "(self_vocab (SNLIDataset_init tok data num_steps (Some given)) = given \<and>
    self_premises (SNLIDataset_init tok data num_steps (Some given)) =
      SNLIDataset_pad given num_steps (tokenize tok (fst data)) \<and>
    self_hypotheses (SNLIDataset_init tok data num_steps (Some given)) =
      SNLIDataset_pad given num_steps (tokenize tok (fst (snd data)))) \<and>
   (load_data_snli fs tok data_dir batch_size num_steps = Inr (train_iter, test_iter, v) \<longrightarrow>
      (\<exists>train_data test_data.
          read_snli fs data_dir True = Inr train_data \<and>
          read_snli fs data_dir False = Inr test_data \<and>
          v = Vocab (tokenize tok (fst train_data) @ tokenize tok (fst (snd train_data))) 5 [''<pad>''] \<and>
          loader_dataset train_iter = SNLIDataset_init tok train_data num_steps None \<and>
          loader_dataset test_iter = SNLIDataset_init tok test_data num_steps (Some v) \<and>
          self_vocab (loader_dataset train_iter) = v \<and>
          self_vocab (loader_dataset test_iter) = v))"
proof (intro conjI impI)
  assume a: "load_data_snli fs tok data_dir batch_size num_steps = Inr (train_iter, test_iter, v)"
  then obtain train_data where tr: "read_snli fs data_dir True = Inr train_data"
    by (cases "read_snli fs data_dir True") (simp_all add: load_data_snli_def)
  with a obtain test_data where te: "read_snli fs data_dir False = Inr test_data"
    by (cases "read_snli fs data_dir False") (simp_all add: load_data_snli_def)
  let ?train_set = "SNLIDataset_init tok train_data num_steps None"
  have tv: "self_vocab ?train_set =
      Vocab (tokenize tok (fst train_data) @ tokenize tok (fst (snd train_data))) 5 [''<pad>'']"
    by (simp add: SNLIDataset_init_def Let_def)
  from a tr te have v: "v = self_vocab ?train_set"
    and i1: "loader_dataset train_iter = ?train_set"
    and i2: "loader_dataset test_iter = SNLIDataset_init tok test_data num_steps (Some (self_vocab ?train_set))"
    by (auto simp: load_data_snli_def Let_def)
  have "self_vocab (SNLIDataset_init tok test_data num_steps (Some v)) = v"
    by (simp add: SNLIDataset_init_def Let_def)
  with tr te tv v i1 i2
  show "\<exists>train_data test_data.
          read_snli fs data_dir True = Inr train_data \<and>
          read_snli fs data_dir False = Inr test_data \<and>
          v = Vocab (tokenize tok (fst train_data) @ tokenize tok (fst (snd train_data))) 5 [''<pad>''] \<and>
          loader_dataset train_iter = SNLIDataset_init tok train_data num_steps None \<and>
          loader_dataset test_iter = SNLIDataset_init tok test_data num_steps (Some v) \<and>
          self_vocab (loader_dataset train_iter) = v \<and>
          self_vocab (loader_dataset test_iter) = v"
    by (intro exI [of _ train_data] exI [of _ test_data]) simp
qed (simp_all add: SNLIDataset_init_def Let_def)

theorem load_data_snli_vocab_from_train_witness:
  "load_data_snli sample_fs (str_split (CHR '' '')) ''data'' 128 3 =
     Inr (\<lparr>loader_dataset = SNLIDataset_init (str_split (CHR '' ''))
              ([''a b'', ''d''], [''c'', ''e''], [0, 2]) 3 None,
            loader_batch_size = 128, loader_shuffle = True, loader_return_list = True\<rparr>,
          \<lparr>loader_dataset = SNLIDataset_init (str_split (CHR '' '')) ([''a''], [''zz''], [1]) 3
              (Some (self_vocab (SNLIDataset_init (str_split (CHR '' ''))
                 ([''a b'', ''d''], [''c'', ''e''], [0, 2]) 3 None))),
            loader_batch_size = 128, loader_shuffle = False, loader_return_list = True\<rparr>,
          self_vocab (SNLIDataset_init (str_split (CHR '' ''))
              ([''a b'', ''d''], [''c'', ''e''], [0, 2]) 3 None)) \<and>
   self_vocab (SNLIDataset_init (str_split (CHR '' '')) ([''a''], [''zz''], [1]) 3
      (Some (self_vocab (SNLIDataset_init (str_split (CHR '' ''))
         ([''a b'', ''d''], [''c'', ''e''], [0, 2]) 3 None)))) =
   Vocab (tokenize (str_split (CHR '' '')) [''a b'', ''d''] @
          tokenize (str_split (CHR '' '')) [''c'', ''e'']) 5 [''<pad>'']"
proof -
  let ?tok = "str_split (CHR '' '')"
  let ?train_set = "SNLIDataset_init ?tok ([''a b'', ''d''], [''c'', ''e''], [0, 2]) 3 None"
  let ?test_set = "SNLIDataset_init ?tok ([''a''], [''zz''], [1]) 3 (Some (self_vocab ?train_set))"
  let ?train_iter = "\<lparr>loader_dataset = ?train_set, loader_batch_size = 128,
      loader_shuffle = True, loader_return_list = True\<rparr>"
  let ?test_iter = "\<lparr>loader_dataset = ?test_set, loader_batch_size = 128,
      loader_shuffle = False, loader_return_list = True\<rparr>"
  have run: "load_data_snli sample_fs ?tok ''data'' 128 3 =
      Inr (?train_iter, ?test_iter, self_vocab ?train_set)"
    by (simp add: load_data_snli_def read_snli_sample_train read_snli_sample_test Let_def)
  from load_data_snli_vocab_from_train [where fs = sample_fs and tok = ?tok
      and data_dir = "''data''" and batch_size = 128 and num_steps = 3
      and train_iter = ?train_iter and test_iter = ?test_iter and v = "self_vocab ?train_set"] run
  obtain train_data test_data where
    r: "read_snli sample_fs ''data'' True = Inr train_data"
      "self_vocab ?train_set =
         Vocab (tokenize ?tok (fst train_data) @ tokenize ?tok (fst (snd train_data))) 5 [''<pad>'']"
      "self_vocab (loader_dataset ?test_iter) = self_vocab ?train_set"
    by blast
  from r(1) read_snli_sample_train have "train_data = ([''a b'', ''d''], [''c'', ''e''], [0, 2])"
    by simp
  with r(2,3) have "self_vocab ?test_set =
      Vocab (tokenize ?tok [''a b'', ''d''] @ tokenize ?tok [''c'', ''e'']) 5 [''<pad>'']"
    by simp
  with run show ?thesis by blast
qed

text \<open>
  Claim C7.  For a dataset constructed from three sequences of equal length, its length
  is the number of examples, and indexed access at a position from 0 up to the length
  returns the padded premise ids and the padded hypothesis ids of that example with its
  label; constructed from empty sequences the dataset has length zero.
\<close>

theorem SNLIDataset_indexed_access:
  assumes "length ps = length hs" and "length hs = length ls"
  shows "let ds = SNLIDataset_init tok (ps, hs, ls) num_steps vocab;
             v = self_vocab ds;
             pad = Vocab_getitem v ''<pad>''
         in SNLIDataset_len ds = length ps \<and>
            (\<forall>idx. 0 \<le> idx \<and> idx < int (SNLIDataset_len ds) \<longrightarrow>
               SNLIDataset_getitem ds idx =
                 Inr ((truncate_pad (Vocab_getitems v (tok (ps ! nat idx))) num_steps pad,
                       truncate_pad (Vocab_getitems v (tok (hs ! nat idx))) num_steps pad),
                      ls ! nat idx)) \<and>
            SNLIDataset_len (SNLIDataset_init tok ([], [], []) num_steps vocab) = 0"
proof -
  let ?ds = "SNLIDataset_init tok (ps, hs, ls) num_steps vocab"
  let ?v = "self_vocab ?ds"
  let ?f = "\<lambda>s. truncate_pad (Vocab_getitems ?v (tok s)) num_steps (Vocab_getitem ?v ''<pad>'')"
  have p: "self_premises ?ds = map ?f ps" and h: "self_hypotheses ?ds = map ?f hs"
    and l: "self_labels ?ds = ls"
    by (simp_all add: SNLIDataset_init_def SNLIDataset_pad_def tokenize_def Let_def)
  have len: "SNLIDataset_len ?ds = length ps"
    by (simp add: SNLIDataset_len_def p)
  have item: "SNLIDataset_getitem ?ds idx = Inr ((?f (ps ! nat idx), ?f (hs ! nat idx)), ls ! nat idx)"
    if "0 \<le> idx \<and> idx < int (SNLIDataset_len ?ds)" for idx
  proof -
    from that len assms have r: "0 \<le> idx" "idx < int (length ps)" "idx < int (length hs)"
        "idx < int (length ls)"
      by simp_all
    then have "nat idx < length ps" "nat idx < length hs" by linarith+
    with r have "getitem (map ?f ps) idx = Inr (?f (ps ! nat idx))"
      and "getitem (map ?f hs) idx = Inr (?f (hs ! nat idx))"
      and "getitem ls idx = Inr (ls ! nat idx)"
      by (simp_all add: getitem_in_range)
    then show ?thesis by (simp add: SNLIDataset_getitem_def p h l)
  qed
  have empty: "SNLIDataset_len (SNLIDataset_init tok ([], [], []) num_steps vocab) = 0"
    by (simp add: SNLIDataset_len_def SNLIDataset_init_def SNLIDataset_pad_def tokenize_def Let_def)
  from len item empty show ?thesis unfolding Let_def by blast
qed

theorem SNLIDataset_indexed_access_witness:
  "length [''a b'', ''d''] = length [''c'', ''e''] \<and> length [''c'', ''e''] = length [0, 2::int] \<and>
   SNLIDataset_len (SNLIDataset_init (str_split (CHR '' ''))
      ([''a b'', ''d''], [''c'', ''e''], [0, 2]) 3 (Some sample_vocab)) = 2 \<and>
   (0::int) \<le> 1 \<and>
   1 < int (SNLIDataset_len (SNLIDataset_init (str_split (CHR '' ''))
      ([''a b'', ''d''], [''c'', ''e''], [0, 2]) 3 (Some sample_vocab))) \<and>
   SNLIDataset_getitem (SNLIDataset_init (str_split (CHR '' ''))
      ([''a b'', ''d''], [''c'', ''e''], [0, 2]) 3 (Some sample_vocab)) 1 =
     Inr (([0, 1, 1], [0, 1, 1]), 2) \<and>
   SNLIDataset_getitem (SNLIDataset_init (str_split (CHR '' ''))
      ([''a b'', ''d''], [''c'', ''e''], [0, 2]) 3 (Some sample_vocab)) 0 =
     Inr (([2, 3, 1], [0, 1, 1]), 0)"
proof -
  let ?ds = "SNLIDataset_init (str_split (CHR '' ''))
      ([''a b'', ''d''], [''c'', ''e''], [0, 2]) 3 (Some sample_vocab)"
  have e: "length [''a b'', ''d''] = length [''c'', ''e'']"
    "length [''c'', ''e''] = length [0, 2::int]" by simp_all
  note inst = SNLIDataset_indexed_access [OF e, of "str_split (CHR '' '')" 3 "Some sample_vocab",
      unfolded Let_def]
  from inst have len: "SNLIDataset_len ?ds = 2" by simp
  have v: "self_vocab ?ds = sample_vocab" by (simp add: SNLIDataset_init_def Let_def)
  from inst len have "SNLIDataset_getitem ?ds 1 =
      Inr ((truncate_pad (Vocab_getitems (self_vocab ?ds) (str_split (CHR '' '') ([''a b'', ''d''] ! nat 1))) 3
              (Vocab_getitem (self_vocab ?ds) ''<pad>''),
            truncate_pad (Vocab_getitems (self_vocab ?ds) (str_split (CHR '' '') ([''c'', ''e''] ! nat 1))) 3
              (Vocab_getitem (self_vocab ?ds) ''<pad>'')), [0, 2] ! nat 1)"
    by simp
  then have 1: "SNLIDataset_getitem ?ds 1 = Inr (([0, 1, 1], [0, 1, 1]), 2)"
    unfolding v
    by (simp add: sample_vocab_def truncate_pad_def Vocab_getitems_def Vocab_getitem_def
        eval_nat_numeral)
  from inst len have "SNLIDataset_getitem ?ds 0 =
      Inr ((truncate_pad (Vocab_getitems (self_vocab ?ds) (str_split (CHR '' '') ([''a b'', ''d''] ! nat 0))) 3
              (Vocab_getitem (self_vocab ?ds) ''<pad>''),
            truncate_pad (Vocab_getitems (self_vocab ?ds) (str_split (CHR '' '') ([''c'', ''e''] ! nat 0))) 3
              (Vocab_getitem (self_vocab ?ds) ''<pad>'')), [0, 2] ! nat 0)"
    by simp
  then have 0: "SNLIDataset_getitem ?ds 0 = Inr (([2, 3, 1], [0, 1, 1]), 0)"
    unfolding v
    by (simp add: sample_vocab_def truncate_pad_def Vocab_getitems_def Vocab_getitem_def
        eval_nat_numeral)
  from e len 1 0 show ?thesis by simp
qed

end
